theory Spec2Isabelle
  imports Complex_Main
begin

section \<open>Review management backend: a shallow embedding\<close>

text \<open>
  The development follows the Python sources \<^verbatim>\<open>main.py\<close>, \<^verbatim>\<open>database.py\<close>,
  \<^verbatim>\<open>ai_services.py\<close> and \<^verbatim>\<open>search_service.py\<close>. Python strings that the code only
  compares, concatenates or passes on are modelled as \<^typ>\<open>string\<close>. The text in which
  \<^verbatim>\<open>extract_topics\<close> searches is the list of its Unicode code points; \<^verbatim>\<open>str.lower\<close>
  and the word class \<^verbatim>\<open>\w\<close> of \<^verbatim>\<open>re\<close>, both Unicode-aware, are parameters of the
  functions that use them. So are the third-party libraries (the VADER scorer, the
  generative-AI client, TF-IDF vectorisation, \<^verbatim>\<open>numpy.argsort\<close>). SQLite exceptions other
  than a primary-key conflict are an explicit boolean input of each database operation.
\<close>

subsection \<open>Texts and the word-boundary search of \<^verbatim>\<open>extract_topics\<close>\<close>

text \<open>
  A text as Python sees it: the sequence of its characters, each one a Unicode code
  point. \<open>Chr c\<close> is the character whose code point is the code of \<open>c\<close> (below 256),
  \<open>Wide n\<close> the character of code point \<open>n\<close>, for the code points from 256 on.
  \<open>str\<close> gives the characters of a literal.
\<close>

datatype pychar = Chr char | Wide nat

type_synonym pystr = "pychar list"

definition str :: "string \<Rightarrow> pystr" where
  "str s = map Chr s"

text \<open>
  In what follows \<open>is_word\<close> stands for the class \<^verbatim>\<open>\w\<close> of a \<^verbatim>\<open>str\<close> pattern (the
  Unicode letters and digits and the underscore) and \<open>str_lower\<close> for \<^verbatim>\<open>str.lower\<close>.

  The assertion \<^verbatim>\<open>\b\<close> holds between two neighbouring positions when exactly one of
  them carries a word character; the positions before the first and after the last
  character of the text (\<open>None\<close>) count as non-word.
\<close>

definition is_word_opt :: "(pychar \<Rightarrow> bool) \<Rightarrow> pychar option \<Rightarrow> bool" where
  "is_word_opt is_word x = (case x of None \<Rightarrow> False | Some c \<Rightarrow> is_word c)"

definition at_word_boundary :: "(pychar \<Rightarrow> bool) \<Rightarrow> pychar option \<Rightarrow> pychar option \<Rightarrow> bool" where
  "at_word_boundary is_word l r = (is_word_opt is_word l \<noteq> is_word_opt is_word r)"

definition first_char :: "pystr \<Rightarrow> pychar option" where
  "first_char t = (case t of [] \<Rightarrow> None | c # _ \<Rightarrow> Some c)"

text \<open>
  \<^verbatim>\<open>re.escape(keyword)\<close> matches the keyword literally; \<open>literal_rest kw t\<close> is the text
  left after the keyword when \<open>t\<close> starts with it.
\<close>

fun literal_rest :: "pystr \<Rightarrow> pystr \<Rightarrow> pystr option" where
  "literal_rest [] t = Some t"
| "literal_rest (k # ks) [] = None"
| "literal_rest (k # ks) (c # cs) = (if k = c then literal_rest ks cs else None)"

text \<open>
  The pattern \<^verbatim>\<open>r'\b' + re.escape(keyword) + r'\b'\<close> tried at the current position of
  the text, \<open>prev\<close> being the character before that position: the keyword is read
  literally, with a word boundary in front of it and one behind it.
\<close>

definition match_here :: "(pychar \<Rightarrow> bool) \<Rightarrow> pychar option \<Rightarrow> pystr \<Rightarrow> pystr \<Rightarrow> bool" where
  "match_here is_word prev kw t =
     (case literal_rest kw t of
        None \<Rightarrow> False
      | Some rest \<Rightarrow>
          at_word_boundary is_word prev (first_char t) \<and>
          at_word_boundary is_word (if kw = [] then prev else Some (last kw)) (first_char rest))"

text \<open>\<^verbatim>\<open>re.search\<close> tries the start positions from the left and stops at the first match.\<close>

fun re_search_from :: "(pychar \<Rightarrow> bool) \<Rightarrow> pychar option \<Rightarrow> pystr \<Rightarrow> pystr \<Rightarrow> bool" where
  "re_search_from is_word prev kw [] = match_here is_word prev kw []"
| "re_search_from is_word prev kw (c # cs) =
     (if match_here is_word prev kw (c # cs) then True
      else re_search_from is_word (Some c) kw cs)"

definition re_search_word :: "(pychar \<Rightarrow> bool) \<Rightarrow> pystr \<Rightarrow> pystr \<Rightarrow> bool" where
  "re_search_word is_word kw t = re_search_from is_word None kw t"

definition TOPIC_KEYWORDS :: "(string \<times> pystr list) list" where
  "TOPIC_KEYWORDS =
    [(''professionalism'',
        map str [''professional'', ''professionalism'', ''expert'', ''expertise'', ''skilled'',
                 ''competent'']),
     (''efficiency'',
        map str [''efficient'', ''efficiency'', ''quick'', ''fast'', ''timely'', ''prompt'',
                 ''speedy'']),
     (''quality'',
        map str [''quality'', ''excellent'', ''perfect'', ''great'', ''outstanding'', ''superb'',
                 ''top-notch'']),
     (''customer_service'',
        map str [''service'', ''helpful'', ''friendly'', ''courteous'', ''attentive'',
                 ''responsive'']),
     (''communication'',
        map str [''communication'', ''communicate'', ''informed'', ''updates'', ''clear'',
                 ''transparent'']),
     (''timeliness'',
        map str [''on time'', ''punctual'', ''deadline'', ''schedule'', ''timely'']),
     (''price'',
        map str [''price'', ''cost'', ''expensive'', ''cheap'', ''affordable'', ''value'',
                 ''worth'']),
     (''cleanliness'',
        map str [''clean'', ''cleanliness'', ''tidy'', ''neat'', ''spotless'', ''organized'']),
     (''reliability'',
        map str [''reliable'', ''dependable'', ''trustworthy'', ''consistent'', ''trust'']),
     (''experience'',
        map str [''experience'', ''knowledgeable'', ''seasoned'', ''veteran''])]"

text \<open>The inner loop over a topic's keywords, left by \<^verbatim>\<open>break\<close> at the first match.\<close>

fun any_keyword_matches :: "(pychar \<Rightarrow> bool) \<Rightarrow> pystr list \<Rightarrow> pystr \<Rightarrow> bool" where
  "any_keyword_matches is_word [] t = False"
| "any_keyword_matches is_word (kw # kws) t =
     (if re_search_word is_word kw t then True else any_keyword_matches is_word kws t)"

text \<open>The outer loop over the dictionary items, appending to \<^verbatim>\<open>matched_topics\<close>.\<close>

fun match_topics ::
    "(pychar \<Rightarrow> bool) \<Rightarrow> (string \<times> pystr list) list \<Rightarrow> pystr \<Rightarrow> string list \<Rightarrow> string list" where
  "match_topics is_word [] t matched = matched"
| "match_topics is_word ((topic, kws) # rest) t matched =
     match_topics is_word rest t
       (if any_keyword_matches is_word kws t then matched @ [topic] else matched)"

definition extract_topics :: "(pystr \<Rightarrow> pystr) \<Rightarrow> (pychar \<Rightarrow> bool) \<Rightarrow> pystr \<Rightarrow> string list" where
  "extract_topics str_lower is_word text =
     (let text_lower = str_lower text;
          matched_topics = match_topics is_word TOPIC_KEYWORDS text_lower []
      in if matched_topics \<noteq> [] then matched_topics else [''general''])"

text \<open>
  The specification's reading of a whole-word match: the keyword occurs in the text, and
  neither the character before the occurrence nor the one after it is a word character.
\<close>

definition occurs_as_whole_word :: "(pychar \<Rightarrow> bool) \<Rightarrow> pystr \<Rightarrow> pystr \<Rightarrow> bool" where
  "occurs_as_whole_word is_word kw t =
     (\<exists>pre post. t = pre @ kw @ post \<and>
        (pre = [] \<or> \<not> is_word (last pre)) \<and>
        (post = [] \<or> \<not> is_word (hd post)))"

definition spec_matched_topics :: "(pystr \<Rightarrow> pystr) \<Rightarrow> (pychar \<Rightarrow> bool) \<Rightarrow> pystr \<Rightarrow> string list" where
  "spec_matched_topics str_lower is_word text =
     map fst (filter (\<lambda>(topic, kws). \<exists>kw \<in> set kws. occurs_as_whole_word is_word kw (str_lower text))
                TOPIC_KEYWORDS)"

definition spec_extract_topics :: "(pystr \<Rightarrow> pystr) \<Rightarrow> (pychar \<Rightarrow> bool) \<Rightarrow> pystr \<Rightarrow> string list" where
  "spec_extract_topics str_lower is_word text =
     (if spec_matched_topics str_lower is_word text = [] then [''general'']
      else spec_matched_topics str_lower is_word text)"

text \<open>
  Every keyword of the dictionary starts and ends with a lower-case ASCII letter, which
  is a word character.
\<close>

definition keyword_ok :: "(pychar \<Rightarrow> bool) \<Rightarrow> pystr \<Rightarrow> bool" where
  "keyword_ok is_word kw = (kw \<noteq> [] \<and> is_word (hd kw) \<and> is_word (last kw))"

definition lower_letters :: pystr where
  "lower_letters = str ''abcdefghijklmnopqrstuvwxyz''"

definition is_lower_letter :: "pychar \<Rightarrow> bool" where
  "is_lower_letter c = (c \<in> set lower_letters)"

text \<open>
  \<^verbatim>\<open>str.lower\<close> and \<^verbatim>\<open>\w\<close> as they are on ASCII text, and an extension of both that
  also has the letter U+00E9 and the KELVIN SIGN U+212A, which \<^verbatim>\<open>str.lower\<close> maps to
  \<^verbatim>\<open>k\<close>.
\<close>

definition ascii_is_word :: "pychar \<Rightarrow> bool" where
  "ascii_is_word c =
     (case c of
        Chr ch \<Rightarrow>
          (let n = (of_char ch :: nat)
           in (48 \<le> n \<and> n \<le> 57) \<or> (65 \<le> n \<and> n \<le> 90) \<or> n = 95 \<or> (97 \<le> n \<and> n \<le> 122))
      | Wide n \<Rightarrow> False)"

definition ascii_lower_char :: "pychar \<Rightarrow> pychar" where
  "ascii_lower_char c =
     (case c of
        Chr ch \<Rightarrow>
          (let n = (of_char ch :: nat)
           in if 65 \<le> n \<and> n \<le> 90 then Chr (char_of (n + 32)) else c)
      | Wide n \<Rightarrow> c)"

definition ascii_lower :: "pystr \<Rightarrow> pystr" where
  "ascii_lower s = map ascii_lower_char s"

definition latin_is_word :: "pychar \<Rightarrow> bool" where
  "latin_is_word c = (ascii_is_word c \<or> c = Chr (CHR 0xE9) \<or> c = Wide 0x212A)"

definition latin_lower :: "pystr \<Rightarrow> pystr" where
  "latin_lower s = map (\<lambda>c. if c = Wide 0x212A then Chr CHR ''k'' else c) (ascii_lower s)"

subsection \<open>Sentiment classification (\<^verbatim>\<open>main.py\<close>)\<close>

text \<open>
  \<open>polarity_compound\<close> stands for \<^verbatim>\<open>sia.polarity_scores(text)['compound']\<close> of the VADER
  analyser. The score is a float that VADER rounds to four decimals; it is modelled as a
  real number, on which the two comparisons with \<open>0.05\<close> and \<open>-0.05\<close> agree with the
  comparisons of the floats.
\<close>

definition analyze_sentiment :: "(string \<Rightarrow> real) \<Rightarrow> string \<Rightarrow> string" where
  "analyze_sentiment polarity_compound txt =
     (let compound = polarity_compound txt
      in if compound \<ge> 0.05 then ''positive''
         else if compound \<le> - 0.05 then ''negative''
         else ''neutral'')"

subsection \<open>The reply generator (\<^verbatim>\<open>ai_services.py\<close>)\<close>

text \<open>
  What \<^verbatim>\<open>generate_reply\<close> observes of \<^verbatim>\<open>client.models.generate_content\<close>: the call
  raises, or it returns a response. Of a response the code reads
  \<^verbatim>\<open>getattr(response, "text", None)\<close> (\<open>None\<close> when the attribute is missing or is
  \<^verbatim>\<open>None\<close>) and, only then, \<^verbatim>\<open>response.candidates[0].text\<close> (\<open>None\<close> when that
  access raises).
\<close>

datatype genai_outcome =
    Raises
  | Response (response_text: "string option") (candidate_text: "string option")

definition prompt_head :: string where
  "prompt_head =
     [CHR 0x0A] @
     ''You are a professional customer service agent responding to customer feedback or reviews.'' @ [CHR 0x0A] @
     ''Your response should:'' @ [CHR 0x0A] @
     ''- Acknowledge and thank them for their feedback,'' @ [CHR 0x0A] @
     ''- Address their concern or dissatisfaction,'' @ [CHR 0x0A] @
     ''- Offer to help or request more info (or escalation) if needed,'' @ [CHR 0x0A] @
     ''- If it's serious, ask them to contact support at customerservice@email.com.'' @ [CHR 0x0A] @
     ''- Sound human, polite, empathic, and professional.'' @ [CHR 0x0A] @
     [CHR 0x0A] @
     ''Customer'' @ [CHR 0xE2, CHR 0x80, CHR 0x99] @ ''s review: '' @ [CHR 0x22]"

definition build_prompt :: "string \<Rightarrow> string" where
  "build_prompt review_text = prompt_head @ review_text @ [CHR 0x22, CHR 0x0A]"

definition service_error_reply :: string where
  "service_error_reply =
     ''Thank you for your feedback. '' @
     ''We encountered a technical issue while generating a reply, '' @
     ''but we value your concern. Please reach out to us at customerservice@email.com, '' @
     ''and we'' @ [CHR 0xE2, CHR 0x80, CHR 0x99] @ ''ll be glad to assist you.''"

definition missing_text_reply :: string where
  "missing_text_reply = ''Thank you for your message. We'll get back to you via support soon.''"

definition GenerateReviewReply_generate_reply :: "(string \<Rightarrow> genai_outcome) \<Rightarrow> string \<Rightarrow> string" where
  "GenerateReviewReply_generate_reply generate_content review_text =
     (case generate_content (build_prompt review_text) of
        Raises \<Rightarrow> service_error_reply
      | Response text_attr candidate \<Rightarrow>
          (case text_attr of
             Some reply_text \<Rightarrow> reply_text
           | None \<Rightarrow>
               (case candidate of
                  Some reply_text \<Rightarrow> reply_text
                | None \<Rightarrow> missing_text_reply)))"

subsection \<open>The review table (\<^verbatim>\<open>database.py\<close>)\<close>

record review =
  r_id :: string
  r_location :: string
  r_rating :: int
  r_date :: string
  r_text :: string
  r_sentiment :: string
  r_topics :: "string list"

text \<open>
  A row of the table \<^verbatim>\<open>reviews\<close>: the review's columns (the list of topics is stored as
  its JSON text and read back by \<^verbatim>\<open>json.loads\<close>) and the nullable column
  \<^verbatim>\<open>suggested_reply\<close>. The table is the list of its rows in insertion order.
\<close>

record db_row =
  row_review :: review
  suggested_reply :: "string option"

type_synonym review_table = "db_row list"

definition row_id :: "db_row \<Rightarrow> string" where
  "row_id row = r_id (row_review row)"

definition new_row :: "review \<Rightarrow> db_row" where
  "new_row r = \<lparr>row_review = r, suggested_reply = None\<rparr>"

text \<open>
  In each operation \<open>fault\<close> says that SQLite raised an exception other than the
  primary-key conflict; every operation catches it and returns its failure value.
  The conflict on the primary key \<^verbatim>\<open>id\<close> is \<^verbatim>\<open>sqlite3.IntegrityError\<close>.
\<close>

definition add_review :: "bool \<Rightarrow> review_table \<Rightarrow> review \<Rightarrow> review_table \<times> bool" where
  "add_review fault table r =
     (if fault then (table, False)
      else if r_id r \<in> set (map row_id table) then (table, False)
      else (table @ [new_row r], True))"

text \<open>
  \<^verbatim>\<open>cursor.executemany\<close> inserts the rows one after the other inside one transaction;
  \<open>None\<close> is the \<^verbatim>\<open>IntegrityError\<close> of the first conflicting row.
\<close>

fun executemany_insert :: "review_table \<Rightarrow> review list \<Rightarrow> review_table option" where
  "executemany_insert table [] = Some table"
| "executemany_insert table (r # rs) =
     (if r_id r \<in> set (map row_id table) then None
      else executemany_insert (table @ [new_row r]) rs)"

text \<open>On an exception \<^verbatim>\<open>conn.rollback()\<close> restores the table of before the call.\<close>

definition add_reviews_batch :: "bool \<Rightarrow> review_table \<Rightarrow> review list \<Rightarrow> review_table \<times> bool" where
  "add_reviews_batch fault table rs =
     (if fault then (table, False)
      else case executemany_insert table rs of
             None \<Rightarrow> (table, False)
           | Some table' \<Rightarrow> (table', True))"

definition add_suggested_reply ::
    "bool \<Rightarrow> review_table \<Rightarrow> string \<Rightarrow> string \<Rightarrow> review_table \<times> bool" where
  "add_suggested_reply fault table review_id reply =
     (if fault then (table, False)
      else
        let table' = map (\<lambda>row. if row_id row = review_id
                                 then row\<lparr>suggested_reply := Some reply\<rparr> else row) table;
            rowcount = length (filter (\<lambda>row. row_id row = review_id) table)
        in if rowcount = 0 then (table', False) else (table', True))"

text \<open>Python's truth value of a nullable text column: \<^verbatim>\<open>None\<close> and \<^verbatim>\<open>""\<close> are false.\<close>

definition truthy :: "string option \<Rightarrow> bool" where
  "truthy x = (case x of None \<Rightarrow> False | Some s \<Rightarrow> s \<noteq> [])"

text \<open>
  \<^verbatim>\<open>get_all_reviews_as_json\<close> followed by \<^verbatim>\<open>json.loads\<close>: the list of the review
  dictionaries, where the key \<^verbatim>\<open>suggested_reply\<close> is present only for a true value
  (\<open>None\<close> stands for the missing key); \<^verbatim>\<open>"[]"\<close> on an exception.
\<close>

definition get_all_reviews_as_json :: "bool \<Rightarrow> review_table \<Rightarrow> db_row list" where
  "get_all_reviews_as_json fault table =
     (if fault then []
      else map (\<lambda>row. if truthy (suggested_reply row) then row
                       else row\<lparr>suggested_reply := None\<rparr>) table)"

definition get_suggested_reply :: "bool \<Rightarrow> review_table \<Rightarrow> string \<Rightarrow> string option" where
  "get_suggested_reply fault table review_id =
     (if fault then None
      else case find (\<lambda>row. row_id row = review_id) table of
             None \<Rightarrow> None
           | Some row \<Rightarrow> if truthy (suggested_reply row) then suggested_reply row else None)"

subsection \<open>The endpoints (\<^verbatim>\<open>main.py\<close>)\<close>

record review_input =
  i_id :: string
  i_location :: string
  i_rating :: int
  i_date :: string
  i_text :: string

datatype http_error = HTTPException nat string

text \<open>
  The state of the application: the in-memory list \<^verbatim>\<open>reviews_db\<close>, the SQLite table
  behind \<^verbatim>\<open>db\<close>, and the number of calls made so far to
  \<^verbatim>\<open>reply_generator.generate_reply\<close>.
\<close>

record app_state =
  reviews_db :: "review list"
  db :: review_table
  gen_calls :: nat

record db_faults =
  insert_fault :: bool
  list_fault :: bool
  get_fault :: bool
  set_fault :: bool

text \<open>
  The library functions behind the enrichment of a review: the compound score of the
  VADER analyser, and for the text in which the topics are searched its characters,
  \<^verbatim>\<open>str.lower\<close> and the word class \<^verbatim>\<open>\w\<close>.
\<close>

record text_lib =
  lib_polarity :: "string \<Rightarrow> real"
  lib_characters :: "string \<Rightarrow> pystr"
  lib_lower :: "pystr \<Rightarrow> pystr"
  lib_is_word :: "pychar \<Rightarrow> bool"

definition process_single_review ::
    "text_lib \<Rightarrow> review list \<Rightarrow> review_input \<Rightarrow> http_error + review" where
  "process_single_review lib mem review_data =
     (if i_id review_data \<in> set (map r_id mem)
      then Inl (HTTPException 400 (''Review with id '' @ i_id review_data @ '' already exists''))
      else Inr \<lparr>r_id = i_id review_data,
                r_location = i_location review_data,
                r_rating = i_rating review_data,
                r_date = i_date review_data,
                r_text = i_text review_data,
                r_sentiment = analyze_sentiment (lib_polarity lib) (i_text review_data),
                r_topics = extract_topics (lib_lower lib) (lib_is_word lib)
                             (lib_characters lib (i_text review_data))\<rparr>)"

text \<open>
  The loop of the bulk branch: every item is processed against the list \<^verbatim>\<open>reviews_db\<close>
  as it was before the request, and the first exception leaves the loop.
\<close>

fun process_all ::
    "text_lib \<Rightarrow> review list \<Rightarrow> review_input list \<Rightarrow> http_error + review list" where
  "process_all lib mem [] = Inr []"
| "process_all lib mem (x # xs) =
     (case process_single_review lib mem x of
        Inl e \<Rightarrow> Inl e
      | Inr r \<Rightarrow>
          (case process_all lib mem xs of
             Inl e \<Rightarrow> Inl e
           | Inr rs \<Rightarrow> Inr (r # rs)))"

datatype ingest_request = Single review_input | Bulk "review_input list"

datatype ingest_response = One review | Many "review list"

text \<open>
  The return value of the database call is only printed, so the response and the
  in-memory list do not depend on it.
\<close>

definition ingest_review ::
    "text_lib \<Rightarrow> db_faults \<Rightarrow> ingest_request \<Rightarrow> app_state
      \<Rightarrow> (http_error + ingest_response) \<times> app_state" where
  "ingest_review lib F request st =
     (case request of
        Bulk items \<Rightarrow>
          (case process_all lib (reviews_db st) items of
             Inl e \<Rightarrow> (Inl e, st)
           | Inr enriched_reviews \<Rightarrow>
               (Inr (Many enriched_reviews),
                st\<lparr>reviews_db := reviews_db st @ enriched_reviews,
                   db := fst (add_reviews_batch (insert_fault F) (db st) enriched_reviews)\<rparr>))
      | Single item \<Rightarrow>
          (case process_single_review lib (reviews_db st) item of
             Inl e \<Rightarrow> (Inl e, st)
           | Inr enriched_review \<Rightarrow>
               (Inr (One enriched_review),
                st\<lparr>reviews_db := reviews_db st @ [enriched_review],
                   db := fst (add_review (insert_fault F) (db st) enriched_review)\<rparr>)))"

record reply_response =
  resp_review_id :: string
  resp_review_text :: string
  resp_suggested_reply :: string

text \<open>The review is looked up in memory first, then in the listing of the table.\<close>

definition resolve_review :: "bool \<Rightarrow> string \<Rightarrow> app_state \<Rightarrow> review option" where
  "resolve_review fault review_id st =
     (case find (\<lambda>r. r_id r = review_id) (reviews_db st) of
        Some r \<Rightarrow> Some r
      | None \<Rightarrow>
          map_option row_review
            (find (\<lambda>row. row_id row = review_id) (get_all_reviews_as_json fault (db st))))"

text \<open>
  \<open>gen n txt\<close> is the \<open>n\<close>-th call of \<^verbatim>\<open>reply_generator.generate_reply\<close>, on the text
  \<open>txt\<close>: the reply, or the message of the exception it raised. The result of
  \<^verbatim>\<open>db.add_suggested_reply\<close> is not read.
\<close>

definition generate_new_reply ::
    "(nat \<Rightarrow> string \<Rightarrow> string + string) \<Rightarrow> db_faults \<Rightarrow> string \<Rightarrow> review \<Rightarrow> app_state
      \<Rightarrow> (http_error + reply_response) \<times> app_state" where
  "generate_new_reply gen F review_id r st =
     (case gen (gen_calls st) (r_text r) of
        Inl e \<Rightarrow>
          (Inl (HTTPException 500 (''Failed to generate reply: '' @ e)),
           st\<lparr>gen_calls := Suc (gen_calls st)\<rparr>)
      | Inr new_reply \<Rightarrow>
          (Inr \<lparr>resp_review_id = review_id, resp_review_text = r_text r,
                resp_suggested_reply = new_reply\<rparr>,
           st\<lparr>gen_calls := Suc (gen_calls st),
              db := fst (add_suggested_reply (set_fault F) (db st) review_id new_reply)\<rparr>))"

definition generate_reply ::
    "(nat \<Rightarrow> string \<Rightarrow> string + string) \<Rightarrow> db_faults \<Rightarrow> string \<Rightarrow> app_state
      \<Rightarrow> (http_error + reply_response) \<times> app_state" where
  "generate_reply gen F review_id st =
     (case resolve_review (list_fault F) review_id st of
        None \<Rightarrow> (Inl (HTTPException 404 (''Review with id '' @ review_id @ '' not found'')), st)
      | Some r \<Rightarrow>
          (case get_suggested_reply (get_fault F) (db st) review_id of
             Some existing_reply \<Rightarrow>
               if existing_reply \<noteq> []
               then (Inr \<lparr>resp_review_id = review_id, resp_review_text = r_text r,
                          resp_suggested_reply = existing_reply\<rparr>, st)
               else generate_new_reply gen F review_id r st
           | None \<Rightarrow> generate_new_reply gen F review_id r st))"

definition get_reply :: "bool \<Rightarrow> string \<Rightarrow> app_state \<Rightarrow> http_error + string \<times> string" where
  "get_reply fault review_id st =
     (case get_suggested_reply fault (db st) review_id of
        None \<Rightarrow> Inl (HTTPException 404 (''No reply found for review '' @ review_id))
      | Some reply \<Rightarrow> Inr (review_id, reply))"

text \<open>
  The generator of the running application: \<^verbatim>\<open>GenerateReviewReply.generate_reply\<close> over
  the client, whose \<open>n\<close>-th call answers \<open>client n\<close>; it raises nothing.
\<close>

definition reply_generator :: "(nat \<Rightarrow> string \<Rightarrow> genai_outcome) \<Rightarrow> nat \<Rightarrow> string \<Rightarrow> string + string" where
  "reply_generator client n review_text = Inr (GenerateReviewReply_generate_reply (client n) review_text)"

subsection \<open>Similar reviews (\<^verbatim>\<open>search_service.py\<close>)\<close>

datatype py_error = ValueError string | IndexError

text \<open>
  The corpus: the listing of the table, or the in-memory list when that listing is
  empty.
\<close>

definition similarity_corpus :: "bool \<Rightarrow> review_table \<Rightarrow> review list \<Rightarrow> review list" where
  "similarity_corpus fault table mem =
     (let all_reviews = map row_review (get_all_reviews_as_json fault table)
      in if all_reviews = [] then mem else all_reviews)"

text \<open>
  The loop over \<^verbatim>\<open>enumerate(all_reviews)\<close>, carrying \<^verbatim>\<open>review_ids\<close>,
  \<^verbatim>\<open>review_texts\<close> and \<^verbatim>\<open>target_idx\<close>.
\<close>

fun collect_reviews ::
    "string \<Rightarrow> review list \<Rightarrow> nat \<Rightarrow> string list \<times> string list \<times> nat option
      \<Rightarrow> string list \<times> string list \<times> nat option" where
  "collect_reviews review_id [] idx acc = acc"
| "collect_reviews review_id (r # rs) idx (review_ids, review_texts, target_idx) =
     collect_reviews review_id rs (Suc idx)
       (review_ids @ [r_id r], review_texts @ [r_text r],
        if r_id r = review_id then Some idx else target_idx)"

text \<open>The slice \<^verbatim>\<open>xs[-k:]\<close>, which is all of \<open>xs\<close> for \<open>k = 0\<close>.\<close>

definition py_last :: "nat \<Rightarrow> 'a list \<Rightarrow> 'a list" where
  "py_last k xs = (if k = 0 then xs else drop (length xs - k) xs)"

text \<open>\<^verbatim>\<open>[review_ids[idx] for idx in similar_indices]\<close>, which raises out of range.\<close>

fun lookup_all :: "string list \<Rightarrow> nat list \<Rightarrow> py_error + string list" where
  "lookup_all review_ids [] = Inr []"
| "lookup_all review_ids (i # rest) =
     (if i < length review_ids
      then (case lookup_all review_ids rest of
              Inl e \<Rightarrow> Inl e
            | Inr found \<Rightarrow> Inr (review_ids ! i # found))
      else Inl IndexError)"

text \<open>
  \<open>tfidf_cosine texts target\<close> stands for the TF-IDF vectorisation of the texts followed
  by the cosine similarities of the target's vector with every vector (the vectoriser
  raises \<^verbatim>\<open>ValueError\<close> on an empty vocabulary); \<open>argsort\<close> stands for
  \<^verbatim>\<open>numpy.argsort\<close>.
\<close>

definition find_similar_reviews ::
    "(string list \<Rightarrow> nat \<Rightarrow> py_error + real list) \<Rightarrow> (real list \<Rightarrow> nat list) \<Rightarrow> bool
      \<Rightarrow> string \<Rightarrow> review_table \<Rightarrow> review list \<Rightarrow> py_error + string list" where
  "find_similar_reviews tfidf_cosine argsort fault review_id table mem =
     (let all_reviews = similarity_corpus fault table mem
      in if length all_reviews < 2 then Inr []
         else
           (case collect_reviews review_id all_reviews 0 ([], [], None) of
              (review_ids, review_texts, None) \<Rightarrow>
                Inl (ValueError (''Review with ID '' @ review_id @ '' not found''))
            | (review_ids, review_texts, Some target_idx) \<Rightarrow>
                (case tfidf_cosine review_texts target_idx of
                   Inl e \<Rightarrow> Inl e
                 | Inr sims \<Rightarrow>
                     if target_idx < length sims
                     then
                       let similarities = sims[target_idx := - 1];
                           num_similar = min 2 (length all_reviews - 1);
                           similar_indices = rev (py_last num_similar (argsort similarities))
                       in lookup_all review_ids similar_indices
                     else Inl IndexError)))"

text \<open>
  The documented result of \<^verbatim>\<open>numpy.argsort\<close>: the indices of the array, each once,
  in an order that sorts the values ascending. The order among equal values is not
  fixed.
\<close>

definition is_argsort :: "real list \<Rightarrow> nat list \<Rightarrow> bool" where
  "is_argsort xs p =
     (distinct p \<and> set p = {0..<length xs} \<and> sorted (map (\<lambda>i. xs ! i) p))"

text \<open>One such function: the stable sort of the indices by their values.\<close>

definition stable_argsort :: "real list \<Rightarrow> nat list" where
  "stable_argsort xs = sort_key (\<lambda>i. xs ! i) [0..<length xs]"

text \<open>
  What the vectoriser and the cosine similarity guarantee when they return: one
  similarity for each text, none of them below zero (the TF-IDF weights are not negative).
\<close>

definition cosine_result_ok :: "nat \<Rightarrow> real list \<Rightarrow> bool" where
  "cosine_result_ok n sims = (length sims = n \<and> list_all (\<lambda>s. 0 \<le> s) sims)"

text \<open>
  The indices \<open>idxs\<close> are a ranking of the best entries of \<open>sims\<close> other than
  \<open>target\<close>: pairwise distinct, in descending order of similarity, and no index left
  out has a higher similarity than one that is in.
\<close>

definition ranked_best :: "real list \<Rightarrow> nat \<Rightarrow> nat list \<Rightarrow> bool" where
  "ranked_best sims target idxs =
     (distinct idxs \<and>
      list_all (\<lambda>i. i < length sims \<and> i \<noteq> target) idxs \<and>
      sorted (rev (map (\<lambda>i. sims ! i) idxs)) \<and>
      list_all (\<lambda>j. j = target \<or> j \<in> set idxs \<or> list_all (\<lambda>i. sims ! j \<le> sims ! i) idxs)
        [0..<length sims])"

text \<open>The similarities of a corpus whose texts are all the same: every pair has \<open>1\<close>.\<close>

definition equal_texts_cosine :: "string list \<Rightarrow> nat \<Rightarrow> py_error + real list" where
  "equal_texts_cosine texts target = Inr (replicate (length texts) 1)"

subsection \<open>Example inputs\<close>

definition example_review :: "string \<Rightarrow> string \<Rightarrow> review" where
  "example_review i t =
     \<lparr>r_id = i, r_location = ''New York'', r_rating = 5, r_date = ''2025-10-04'',
      r_text = t, r_sentiment = ''positive'', r_topics = [''quality'']\<rparr>"


definition no_faults :: db_faults where
  "no_faults = \<lparr>insert_fault = False, list_fault = False, get_fault = False, set_fault = False\<rparr>"

definition write_fault :: db_faults where
  "write_fault = \<lparr>insert_fault = False, list_fault = False, get_fault = False, set_fault = True\<rparr>"

definition zero_polarity :: "string \<Rightarrow> real" where
  "zero_polarity txt = 0"


text \<open>Clients of the generative service: one that raises, and three kinds of response.\<close>

definition raising_client :: "string \<Rightarrow> genai_outcome" where
  "raising_client prompt = Raises"

definition no_text_client :: "string \<Rightarrow> genai_outcome" where
  "no_text_client prompt = Response None None"

definition empty_text_client :: "string \<Rightarrow> genai_outcome" where
  "empty_text_client prompt = Response (Some []) None"

definition thanks_client :: "string \<Rightarrow> genai_outcome" where
  "thanks_client prompt = Response (Some ''Thank you for your review.'') None"

definition candidate_client :: "string \<Rightarrow> genai_outcome" where
  "candidate_client prompt = Response None (Some ''We appreciate it.'')"

text \<open>A service whose first response has an empty text and whose later ones have not.\<close>

definition empty_then_thanks :: "nat \<Rightarrow> string \<Rightarrow> genai_outcome" where
  "empty_then_thanks n = (if n = 0 then empty_text_client else thanks_client)"

definition stored_state :: "string option \<Rightarrow> app_state" where
  "stored_state reply =
     \<lparr>reviews_db = [example_review ''rev001'' ''Great service''],
      db = [\<lparr>row_review = example_review ''rev001'' ''Great service'', suggested_reply = reply\<rparr>],
      gen_calls = 0\<rparr>"

definition always_thanks :: "nat \<Rightarrow> string \<Rightarrow> genai_outcome" where
  "always_thanks n = thanks_client"


text \<open>A review that is in the in-memory list and has no row in the table.\<close>

definition memory_only_state :: app_state where
  "memory_only_state =
     \<lparr>reviews_db = [example_review ''rev001'' ''Great service''], db = [], gen_calls = 0\<rparr>"

text \<open>Similarities as a vectoriser could return them, and a corpus of three reviews.\<close>

definition example_cosine :: "string list \<Rightarrow> nat \<Rightarrow> py_error + real list" where
  "example_cosine texts target =
     Inr (map (\<lambda>i. if i = target then 1 else 1 / real (i + 2)) [0..<length texts])"

definition three_reviews :: "review list" where
  "three_reviews =
     [example_review ''rev001'' ''Great service'',
      example_review ''rev002'' ''Slow service'',
      example_review ''rev003'' ''Great food'']"

section \<open>Properties\<close>

subsection \<open>Topic extraction\<close>

lemma literal_rest_iff: "literal_rest kw t = Some rest \<longleftrightarrow> t = kw @ rest"
  by (induction kw t rule: literal_rest.induct) auto

lemma match_here_iff:
  assumes "keyword_ok is_word kw"
  shows "match_here is_word prev kw t \<longleftrightarrow>
    (\<not> is_word_opt is_word prev \<and>
     (\<exists>post. t = kw @ post \<and> (post = [] \<or> \<not> is_word (hd post))))"
proof (cases "literal_rest kw t")
  case None
  then have "\<And>post. t \<noteq> kw @ post"
    using literal_rest_iff [of kw t] by auto
  with None show ?thesis by (simp add: match_here_def)
next
  case (Some rest)
  then have t: "t = kw @ rest" by (simp add: literal_rest_iff)
  obtain k ks where kw: "kw = k # ks" "is_word k" "is_word (last kw)"
    using assms by (cases kw) (auto simp: keyword_ok_def)
  have nw: "is_word_opt is_word (first_char t)"
    using t kw by (simp add: first_char_def is_word_opt_def)
  have nr: "is_word_opt is_word (first_char rest) \<longleftrightarrow> \<not> (rest = [] \<or> \<not> is_word (hd rest))"
    by (cases rest) (simp_all add: first_char_def is_word_opt_def)
  have "match_here is_word prev kw t \<longleftrightarrow>
      \<not> is_word_opt is_word prev \<and> \<not> is_word_opt is_word (first_char rest)"
    using Some nw kw by (auto simp: match_here_def at_word_boundary_def is_word_opt_def)
  then show ?thesis using nr t by auto
qed

lemma re_search_from_iff:
  assumes "keyword_ok is_word kw"
  shows "re_search_from is_word prev kw t \<longleftrightarrow>
    (\<exists>pre post. t = pre @ kw @ post \<and>
       (if pre = [] then \<not> is_word_opt is_word prev else \<not> is_word (last pre)) \<and>
       (post = [] \<or> \<not> is_word (hd post)))"
    (is "?L prev t \<longleftrightarrow> ?R prev t")
proof (induction t arbitrary: prev)
  case Nil
  have "kw \<noteq> []" using assms by (simp add: keyword_ok_def)
  then show ?case using match_here_iff [OF assms, of prev "[]"] by auto
next
  case (Cons c cs)
  have here: "match_here is_word prev kw (c # cs) \<longleftrightarrow>
      (\<exists>post. c # cs = [] @ kw @ post \<and> \<not> is_word_opt is_word prev \<and>
         (post = [] \<or> \<not> is_word (hd post)))"
    using match_here_iff [OF assms, of prev "c # cs"] by auto
  have later: "?R (Some c) cs \<longleftrightarrow>
      (\<exists>pre post. c # cs = (c # pre) @ kw @ post \<and> \<not> is_word (last (c # pre)) \<and>
         (post = [] \<or> \<not> is_word (hd post)))"
    by (auto simp: is_word_opt_def)
  show ?case
  proof
    assume "?L prev (c # cs)"
    then consider "match_here is_word prev kw (c # cs)" | "?L (Some c) cs"
      by (auto split: if_splits)
    then show "?R prev (c # cs)"
    proof cases
      case 1
      then obtain post where "c # cs = [] @ kw @ post" "\<not> is_word_opt is_word prev"
          "post = [] \<or> \<not> is_word (hd post)"
        using here by blast
      then show ?thesis by (intro exI [of _ "[]"] exI [of _ post]) simp
    next
      case 2
      then have "?R (Some c) cs" using Cons.IH by simp
      then obtain pre post where "c # cs = (c # pre) @ kw @ post"
          "\<not> is_word (last (c # pre))" "post = [] \<or> \<not> is_word (hd post)"
        using later by blast
      then show ?thesis by (intro exI [of _ "c # pre"] exI [of _ post]) simp
    qed
  next
    assume "?R prev (c # cs)"
    then obtain pre post where t: "c # cs = pre @ kw @ post"
      and pre: "if pre = [] then \<not> is_word_opt is_word prev else \<not> is_word (last pre)"
      and post: "post = [] \<or> \<not> is_word (hd post)"
      by blast
    show "?L prev (c # cs)"
    proof (cases pre)
      case Nil
      then have "match_here is_word prev kw (c # cs)" using here t pre post by auto
      then show ?thesis by simp
    next
      case (Cons d pre')
      then have "d = c" and "cs = pre' @ kw @ post" using t by simp_all
      then have "?R (Some c) cs"
        using later t pre post Cons by (auto simp del: last.simps)
      then have "?L (Some c) cs" using Cons.IH by simp
      then show ?thesis by simp
    qed
  qed
qed

lemma re_search_word_iff:
  assumes "keyword_ok is_word kw"
  shows "re_search_word is_word kw t \<longleftrightarrow> occurs_as_whole_word is_word kw t"
proof -
  have "(if pre = [] then \<not> is_word_opt is_word None else P) \<longleftrightarrow> (pre = [] \<or> P)"
    for pre :: pystr and P
    by (simp add: is_word_opt_def)
  then show ?thesis
    by (simp only: re_search_word_def occurs_as_whole_word_def re_search_from_iff [OF assms])
qed

lemma any_keyword_matches_iff:
  "any_keyword_matches is_word kws t \<longleftrightarrow> (\<exists>kw \<in> set kws. re_search_word is_word kw t)"
  by (induction kws) auto

lemma match_topics_filter:
  "match_topics is_word table t matched =
     matched @ map fst (filter (\<lambda>(topic, kws). any_keyword_matches is_word kws t) table)"
  by (induction is_word table t matched rule: match_topics.induct) auto

lemma TOPIC_KEYWORDS_letters:
  "list_all (\<lambda>(topic, kws). list_all (keyword_ok is_lower_letter) kws) TOPIC_KEYWORDS"
  by code_simp

lemma TOPIC_KEYWORDS_ok:
  assumes "list_all is_word lower_letters"
    and "(topic, kws) \<in> set TOPIC_KEYWORDS" and "kw \<in> set kws"
  shows "keyword_ok is_word kw"
proof -
  have "keyword_ok is_lower_letter kw"
    using TOPIC_KEYWORDS_letters assms(2,3) by (auto simp: list_all_iff)
  moreover have "is_word c" if "is_lower_letter c" for c
    using that assms(1) by (simp add: is_lower_letter_def list_all_iff)
  ultimately show ?thesis by (simp add: keyword_ok_def)
qed

lemma TOPIC_KEYWORDS_distinct: "distinct (map fst TOPIC_KEYWORDS)"
  by code_simp

lemma match_topics_spec:
  assumes "list_all is_word lower_letters"
  shows "match_topics is_word TOPIC_KEYWORDS (str_lower text) [] =
    spec_matched_topics str_lower is_word text"
proof -
  have "filter (\<lambda>(topic, kws). any_keyword_matches is_word kws (str_lower text)) TOPIC_KEYWORDS =
        filter (\<lambda>(topic, kws). \<exists>kw \<in> set kws. occurs_as_whole_word is_word kw (str_lower text))
          TOPIC_KEYWORDS"
  proof (rule filter_cong [OF refl])
    fix x assume x: "x \<in> set TOPIC_KEYWORDS"
    obtain topic kws where xe: "x = (topic, kws)" by (cases x)
    have "\<forall>kw \<in> set kws. keyword_ok is_word kw"
      using TOPIC_KEYWORDS_ok [OF assms] x xe by blast
    then have "\<forall>kw \<in> set kws.
        re_search_word is_word kw (str_lower text) =
        occurs_as_whole_word is_word kw (str_lower text)"
      using re_search_word_iff by simp
    then show "(case x of (topic, kws) \<Rightarrow> any_keyword_matches is_word kws (str_lower text)) =
               (case x of (topic, kws) \<Rightarrow>
                  \<exists>kw \<in> set kws. occurs_as_whole_word is_word kw (str_lower text))"
      by (simp add: xe any_keyword_matches_iff)
  qed
  then show ?thesis
    by (simp add: match_topics_filter spec_matched_topics_def)
qed

lemma spec_matched_topics_distinct: "distinct (spec_matched_topics str_lower is_word text)"
  unfolding spec_matched_topics_def
  by (rule distinct_map_filter) (rule TOPIC_KEYWORDS_distinct)

text \<open>
  Claim C4. For every text, \<open>extract_topics\<close> returns the labels of exactly those topics
  one of whose keywords occurs in the lower-cased text as a whole word, each once and in
  the order of the dictionary; when there is none it returns the one label "general",
  so the result is never empty. The text is any sequence of Unicode characters, and
  \<open>str_lower\<close> and \<open>is_word\<close> are any lower-casing and any word class in which the
  lower-case ASCII letters are word characters, as they are in Python.
\<close>

theorem extract_topics_whole_word:
  assumes "list_all is_word lower_letters"
  shows "extract_topics str_lower is_word text = spec_extract_topics str_lower is_word text \<and>
    distinct (extract_topics str_lower is_word text) \<and>
    extract_topics str_lower is_word text \<noteq> []"
proof -
  have eq: "extract_topics str_lower is_word text = spec_extract_topics str_lower is_word text"
    by (simp add: extract_topics_def spec_extract_topics_def match_topics_spec [OF assms])
  have "distinct (spec_extract_topics str_lower is_word text)"
    using spec_matched_topics_distinct [of str_lower is_word "text"]
    by (simp add: spec_extract_topics_def)
  moreover have "spec_extract_topics str_lower is_word text \<noteq> []"
    by (simp add: spec_extract_topics_def)
  ultimately show ?thesis using eq by simp
qed

theorem extract_topics_whole_word_witness:
  "spec_extract_topics ascii_lower ascii_is_word
       (str ''Unprofessional staff, but QUICK service and on time!'') =
     [''efficiency'', ''customer_service'', ''timeliness''] \<and>
   spec_extract_topics ascii_lower ascii_is_word (str ''They arrived sometime later'') =
     [''general''] \<and>
   spec_extract_topics latin_lower latin_is_word (Chr (CHR 0xE9) # str ''service'') = [''general''] \<and>
   spec_extract_topics latin_lower latin_is_word (str ''quic'' @ [Wide 0x212A]) = [''efficiency'']"
proof -
  have a: "list_all ascii_is_word lower_letters" by code_simp
  have l: "list_all latin_is_word lower_letters" by code_simp
  have "extract_topics ascii_lower ascii_is_word
       (str ''Unprofessional staff, but QUICK service and on time!'') =
     [''efficiency'', ''customer_service'', ''timeliness'']"
    by code_simp
  moreover have "extract_topics ascii_lower ascii_is_word (str ''They arrived sometime later'') =
     [''general'']"
    by code_simp
  moreover have "extract_topics latin_lower latin_is_word (Chr (CHR 0xE9) # str ''service'') = [''general'']"
    by code_simp
  moreover have "extract_topics latin_lower latin_is_word (str ''quic'' @ [Wide 0x212A]) =
     [''efficiency'']"
    by code_simp
  ultimately show ?thesis
    using extract_topics_whole_word [OF a, of ascii_lower
        "str ''Unprofessional staff, but QUICK service and on time!''"]
      extract_topics_whole_word [OF a, of ascii_lower "str ''They arrived sometime later''"]
      extract_topics_whole_word [OF l, of latin_lower "Chr (CHR 0xE9) # str ''service''"]
      extract_topics_whole_word [OF l, of latin_lower "str ''quic'' @ [Wide 0x212A]"]
    by simp
qed

subsection \<open>Sentiment classification\<close>

text \<open>
  Claim C5. For every text, \<open>analyze_sentiment\<close> returns "positive" exactly when the
  compound score is at least 0.05, "negative" exactly when it is at most -0.05 and
  "neutral" otherwise; it is a total function of the text and the score, and the empty
  text, which the lexicon scores 0, is "neutral".
\<close>

theorem analyze_sentiment_thresholds:
  "(analyze_sentiment pc txt = ''positive'' \<longleftrightarrow> pc txt \<ge> 0.05) \<and>
   (analyze_sentiment pc txt = ''negative'' \<longleftrightarrow> pc txt \<le> - 0.05) \<and>
   (analyze_sentiment pc txt = ''neutral'' \<longleftrightarrow> - 0.05 < pc txt \<and> pc txt < 0.05) \<and>
   (pc [] = 0 \<longrightarrow> analyze_sentiment pc [] = ''neutral'')"
  by (auto simp: analyze_sentiment_def Let_def)

theorem analyze_sentiment_thresholds_witness:
  "zero_polarity [] = 0 \<and> analyze_sentiment zero_polarity [] = ''neutral''"
  using analyze_sentiment_thresholds [of zero_polarity "[]"]
  by (simp add: zero_polarity_def)

subsection \<open>The reply generator\<close>

text \<open>
  Claim C7, as stated: for every review text \<open>generate_reply\<close> returns a non-empty
  string. It does not when the service answers with an empty text, which is returned
  as it is.
\<close>

theorem generate_reply_empty_counterexample:
  "GenerateReviewReply_generate_reply empty_text_client ''Great service'' = []"
  by (simp add: GenerateReviewReply_generate_reply_def empty_text_client_def)

text \<open>
  Claim C7, amended. When the call of the service raises, \<open>generate_reply\<close> returns the
  fixed reply \<open>service_error_reply\<close>; when the response has no text and no candidate
  text can be read, it returns the fixed reply \<open>missing_text_reply\<close>; both are
  non-empty. Otherwise it returns the text of the response (or of its first candidate)
  as it is, so the result is non-empty whenever that text is.
\<close>

theorem generate_reply_fallbacks:
  "(generate_content (build_prompt t) = Raises \<longrightarrow>
      GenerateReviewReply_generate_reply generate_content t = service_error_reply) \<and>
   (generate_content (build_prompt t) = Response None None \<longrightarrow>
      GenerateReviewReply_generate_reply generate_content t = missing_text_reply) \<and>
   (generate_content (build_prompt t) = Response (Some s) c \<longrightarrow>
      GenerateReviewReply_generate_reply generate_content t = s) \<and>
   (generate_content (build_prompt t) = Response None (Some s) \<longrightarrow>
      GenerateReviewReply_generate_reply generate_content t = s) \<and>
   service_error_reply \<noteq> [] \<and> missing_text_reply \<noteq> []"
  by (simp add: GenerateReviewReply_generate_reply_def service_error_reply_def
      missing_text_reply_def)

theorem generate_reply_fallbacks_witness:
  "GenerateReviewReply_generate_reply raising_client ''Great service'' = service_error_reply \<and>
   GenerateReviewReply_generate_reply no_text_client ''Great service'' = missing_text_reply \<and>
   GenerateReviewReply_generate_reply thanks_client ''Great service'' = ''Thank you for your review.'' \<and>
   GenerateReviewReply_generate_reply candidate_client ''Great service'' = ''We appreciate it.''"
  using generate_reply_fallbacks [of raising_client "''Great service''"]
    generate_reply_fallbacks [of no_text_client "''Great service''"]
    generate_reply_fallbacks [of thanks_client "''Great service''" "''Thank you for your review.''" None]
    generate_reply_fallbacks [of candidate_client "''Great service''" "''We appreciate it.''"]
  by (simp add: raising_client_def no_text_client_def thanks_client_def candidate_client_def)

subsection \<open>The review table\<close>

lemma find_map_preserving:
  "(\<And>x. P (f x) = P x) \<Longrightarrow> find P (map f xs) = map_option f (find P xs)"
  by (induction xs) auto

lemma find_row_None: "find (\<lambda>row. row_id row = rid) table = None \<longleftrightarrow> rid \<notin> set (map row_id table)"
  by (auto simp: find_None_iff)

lemma find_row_Some:
  "find (\<lambda>row. row_id row = rid) table = Some row \<Longrightarrow> row \<in> set table \<and> row_id row = rid"
  by (induction table) (auto split: if_splits)

lemma find_listing:
  "find (\<lambda>row. row_id row = rid) (get_all_reviews_as_json False table) =
     map_option (\<lambda>row. if truthy (suggested_reply row) then row else row\<lparr>suggested_reply := None\<rparr>)
       (find (\<lambda>row. row_id row = rid) table)"
  unfolding get_all_reviews_as_json_def
  by (simp add: find_map_preserving row_id_def)

lemma resolve_review_table:
  "resolve_review False rid st =
     (case find (\<lambda>r. r_id r = rid) (reviews_db st) of
        Some r \<Rightarrow> Some r
      | None \<Rightarrow> map_option row_review (find (\<lambda>row. row_id row = rid) (db st)))"
proof -
  have eq: "row_review (if truthy (suggested_reply row) then row
                        else row\<lparr>suggested_reply := None\<rparr>) = row_review row" for row
    by simp
  show ?thesis
    by (cases "find (\<lambda>r. r_id r = rid) (reviews_db st)")
       (simp_all add: resolve_review_def find_listing option.map_comp comp_def eq)
qed

lemma resolve_review_exists:
  assumes "rid \<in> set (map row_id (db st))"
  shows "\<exists>r. resolve_review False rid st = Some r"
proof -
  obtain row where "find (\<lambda>row. row_id row = rid) (db st) = Some row"
    using assms find_row_None [of rid "db st"] by (cases "find (\<lambda>row. row_id row = rid) (db st)") auto
  then show ?thesis
    by (simp add: resolve_review_table split: option.splits)
qed

lemma executemany_insert_None:
  "executemany_insert table rs = None \<longleftrightarrow>
     \<not> distinct (map r_id rs) \<or> (\<exists>r \<in> set rs. r_id r \<in> set (map row_id table))"
proof (induction rs arbitrary: table)
  case Nil
  then show ?case by simp
next
  case (Cons r rs)
  have rid: "row_id (new_row r) = r_id r" by (simp add: row_id_def new_row_def)
  show ?case
  proof (cases "r_id r \<in> set (map row_id table)")
    case True
    then show ?thesis by auto
  next
    case False
    have "executemany_insert table (r # rs) = None \<longleftrightarrow>
        executemany_insert (table @ [new_row r]) rs = None"
      using False by simp
    also have "\<dots> \<longleftrightarrow> \<not> distinct (map r_id rs) \<or>
        (\<exists>x \<in> set rs. r_id x \<in> set (map row_id (table @ [new_row r])))"
      by (rule Cons.IH)
    also have "\<dots> \<longleftrightarrow> \<not> distinct (map r_id (r # rs)) \<or>
        (\<exists>x \<in> set (r # rs). r_id x \<in> set (map row_id table))"
      using False rid by (auto simp: image_iff) (metis+)?
    finally show ?thesis .
  qed
qed

lemma executemany_insert_Some:
  "executemany_insert table rs = Some table' \<Longrightarrow> table' = table @ map new_row rs"
proof (induction rs arbitrary: table)
  case Nil
  then show ?case by simp
next
  case (Cons r rs)
  then have "executemany_insert (table @ [new_row r]) rs = Some table'"
    by (simp split: if_splits)
  then have "table' = (table @ [new_row r]) @ map new_row rs"
    by (rule Cons.IH)
  then show ?case by simp
qed

lemma process_all_ids:
  "process_all lib mem items = Inr rs \<Longrightarrow> map r_id rs = map i_id items"
  by (induction items arbitrary: rs)
     (auto simp: process_single_review_def split: sum.splits if_splits)




text \<open>
  Claim C3. For every batch of reviews, if an id of the batch occurs twice in the batch
  or is already in the table, then \<open>add_reviews_batch\<close> fails (it returns \<open>False\<close>) and
  the table is the one of before the call: no review of the batch is stored. The same
  holds for the table when such a batch is ingested through the endpoint.
\<close>

theorem batch_insert_all_or_nothing:
  "(\<not> distinct (map r_id rs) \<or> (\<exists>r \<in> set rs. r_id r \<in> set (map row_id table)) \<longrightarrow>
      add_reviews_batch fault table rs = (table, False)) \<and>
   (\<not> distinct (map i_id items) \<or> (\<exists>x \<in> set items. i_id x \<in> set (map row_id (db st))) \<longrightarrow>
      db (snd (ingest_review lib F (Bulk items) st)) = db st)"
proof (intro conjI impI)
  assume "\<not> distinct (map r_id rs) \<or> (\<exists>r \<in> set rs. r_id r \<in> set (map row_id table))"
  then have "executemany_insert table rs = None"
    by (simp only: executemany_insert_None)
  then show "add_reviews_batch fault table rs = (table, False)"
    by (simp add: add_reviews_batch_def)
next
  assume dup: "\<not> distinct (map i_id items) \<or> (\<exists>x \<in> set items. i_id x \<in> set (map row_id (db st)))"
  show "db (snd (ingest_review lib F (Bulk items) st)) = db st"
  proof (cases "process_all lib (reviews_db st) items")
    case (Inl e)
    then show ?thesis by (simp add: ingest_review_def)
  next
    case (Inr enriched)
    then have ids: "map r_id enriched = map i_id items" by (rule process_all_ids)
    have "set (map r_id enriched) = set (map i_id items)" by (simp only: ids)
    then have "\<not> distinct (map r_id enriched) \<or>
        (\<exists>r \<in> set enriched. r_id r \<in> set (map row_id (db st)))"
      using dup ids by (metis (no_types, lifting) image_iff list.set_map)
    then have "executemany_insert (db st) enriched = None"
      by (simp only: executemany_insert_None)
    then show ?thesis using Inr by (simp add: ingest_review_def add_reviews_batch_def)
  qed
qed

theorem batch_insert_all_or_nothing_witness:
  "add_reviews_batch False (db (stored_state None))
       [example_review ''rev002'' ''Quick'', example_review ''rev002'' ''Clean''] =
     (db (stored_state None), False) \<and>
   add_reviews_batch False (db (stored_state None))
       [example_review ''rev002'' ''Quick'', example_review ''rev001'' ''Clean''] =
     (db (stored_state None), False)"
  using batch_insert_all_or_nothing [of
      "[example_review ''rev002'' ''Quick'', example_review ''rev002'' ''Clean'']"
      "db (stored_state None)" False]
    batch_insert_all_or_nothing [of
      "[example_review ''rev002'' ''Quick'', example_review ''rev001'' ''Clean'']"
      "db (stored_state None)" False]
  by (simp add: stored_state_def example_review_def row_id_def)

subsection \<open>Reply generation and its cache\<close>

lemma generate_new_reply_calls:
  "gen_calls (snd (generate_new_reply gen F rid r st)) = Suc (gen_calls st)"
  by (simp add: generate_new_reply_def split: sum.splits)

lemma get_suggested_reply_nonempty:
  "get_suggested_reply fault table rid = Some s \<Longrightarrow> s \<noteq> []"
  by (auto simp: get_suggested_reply_def truthy_def split: if_splits option.splits)

lemma find_after_update:
  "find (\<lambda>row. row_id row = rid)
     (map (\<lambda>row. if row_id row = rid' then row\<lparr>suggested_reply := Some s\<rparr> else row) table) =
   map_option (\<lambda>row. if row_id row = rid' then row\<lparr>suggested_reply := Some s\<rparr> else row)
     (find (\<lambda>row. row_id row = rid) table)"
  by (rule find_map_preserving) (simp add: row_id_def)

lemma get_after_add:
  assumes "rid \<in> set (map row_id table)" and "s \<noteq> []"
  shows "get_suggested_reply False (fst (add_suggested_reply False table rid s)) rid = Some s"
proof -
  obtain row where row: "find (\<lambda>row. row_id row = rid) table = Some row"
    using assms(1) find_row_None [of rid table]
    by (cases "find (\<lambda>row. row_id row = rid) table") auto
  have rid: "row_id row = rid" using find_row_Some [OF row] by simp
  have upd: "fst (add_suggested_reply False table rid s) =
      map (\<lambda>row. if row_id row = rid then row\<lparr>suggested_reply := Some s\<rparr> else row) table"
    by (simp add: add_suggested_reply_def Let_def)
  have "find (\<lambda>row. row_id row = rid) (fst (add_suggested_reply False table rid s)) =
      Some (row\<lparr>suggested_reply := Some s\<rparr>)"
    by (simp only: upd find_after_update row option.map rid if_True refl)
  then show ?thesis
    using assms(2) by (simp add: get_suggested_reply_def truthy_def)
qed

lemma resolve_after_add:
  "resolve_review False rid
     (st\<lparr>gen_calls := n, db := fst (add_suggested_reply fault (db st) rid' s)\<rparr>) =
   resolve_review False rid st"
proof -
  have eq: "row_review (if row_id row = rid' then row\<lparr>suggested_reply := Some s\<rparr> else row) =
      row_review row" for row
    by simp
  show ?thesis
    by (cases "find (\<lambda>r. r_id r = rid) (reviews_db st)")
       (simp_all add: resolve_review_table add_suggested_reply_def Let_def find_after_update
          option.map_comp comp_def eq)
qed

text \<open>
  Claim C1, as stated: two calls of generate-reply in succession return the same reply,
  and the generator is called at most once. Here the review is stored with no reply,
  the first generated reply is empty and is stored; the second call finds no true
  reply, calls the generator again and returns another reply.
\<close>

theorem generate_reply_twice_counterexample:
  "fst (generate_reply (reply_generator empty_then_thanks) no_faults ''rev001''
          (stored_state None)) =
     Inr \<lparr>resp_review_id = ''rev001'', resp_review_text = ''Great service'',
           resp_suggested_reply = []\<rparr> \<and>
   fst (generate_reply (reply_generator empty_then_thanks) no_faults ''rev001''
          (snd (generate_reply (reply_generator empty_then_thanks) no_faults ''rev001''
                  (stored_state None)))) =
     Inr \<lparr>resp_review_id = ''rev001'', resp_review_text = ''Great service'',
           resp_suggested_reply = ''Thank you for your review.''\<rparr> \<and>
   gen_calls (snd (generate_reply (reply_generator empty_then_thanks) no_faults ''rev001''
          (snd (generate_reply (reply_generator empty_then_thanks) no_faults ''rev001''
                  (stored_state None))))) = 2"
  by (simp add: generate_reply_def generate_new_reply_def resolve_review_def
      get_suggested_reply_def add_suggested_reply_def truthy_def reply_generator_def
      GenerateReviewReply_generate_reply_def empty_then_thanks_def empty_text_client_def
      thanks_client_def no_faults_def stored_state_def example_review_def row_id_def)

text \<open>
  Claim C1, amended. For every review id that has a row in the table, when the
  operations on the table do not fail: a stored non-empty reply is returned without
  calling the generator, the state staying as it is; and when no true reply is stored
  and the generator returns a non-empty reply, the first call returns and stores it, the
  second call returns the same reply, and the generator has been called exactly once
  over the two calls.
\<close>

theorem generate_reply_cached:
  assumes row: "rid \<in> set (map row_id (db st))"
    and ok: "\<not> list_fault F" "\<not> get_fault F" "\<not> set_fault F"
  shows "\<exists>r. resolve_review (list_fault F) rid st = Some r \<and>
    (get_suggested_reply (get_fault F) (db st) rid = Some s \<longrightarrow>
       generate_reply gen F rid st =
         (Inr \<lparr>resp_review_id = rid, resp_review_text = r_text r, resp_suggested_reply = s\<rparr>, st)) \<and>
    (get_suggested_reply (get_fault F) (db st) rid = None \<and>
     gen (gen_calls st) (r_text r) = Inr s \<and> s \<noteq> [] \<longrightarrow>
       fst (generate_reply gen F rid st) =
         Inr \<lparr>resp_review_id = rid, resp_review_text = r_text r, resp_suggested_reply = s\<rparr> \<and>
       generate_reply gen F rid (snd (generate_reply gen F rid st)) =
         (Inr \<lparr>resp_review_id = rid, resp_review_text = r_text r, resp_suggested_reply = s\<rparr>,
          snd (generate_reply gen F rid st)) \<and>
       gen_calls (snd (generate_reply gen F rid st)) = Suc (gen_calls st))"
proof -
  obtain r where r: "resolve_review False rid st = Some r"
    using resolve_review_exists [OF row] by blast
  let ?resp = "\<lparr>resp_review_id = rid, resp_review_text = r_text r, resp_suggested_reply = s\<rparr>"
  have hit: "generate_reply gen F rid st = (Inr ?resp, st)"
    if "get_suggested_reply False (db st) rid = Some s"
    using that r ok get_suggested_reply_nonempty [OF that]
    by (simp add: generate_reply_def)
  have miss: "fst (generate_reply gen F rid st) = Inr ?resp \<and>
       generate_reply gen F rid (snd (generate_reply gen F rid st)) =
         (Inr ?resp, snd (generate_reply gen F rid st)) \<and>
       gen_calls (snd (generate_reply gen F rid st)) = Suc (gen_calls st)"
    if none: "get_suggested_reply False (db st) rid = None"
      and gen: "gen (gen_calls st) (r_text r) = Inr s" and s: "s \<noteq> []"
  proof -
    let ?st1 = "st\<lparr>gen_calls := Suc (gen_calls st),
                    db := fst (add_suggested_reply False (db st) rid s)\<rparr>"
    have first: "generate_reply gen F rid st = (Inr ?resp, ?st1)"
      using r ok none gen by (simp add: generate_reply_def generate_new_reply_def)
    have r1: "resolve_review False rid ?st1 = Some r"
      using r by (simp only: resolve_after_add)
    have g1: "get_suggested_reply False (db ?st1) rid = Some s"
      using get_after_add [OF row s] by simp
    have second: "generate_reply gen F rid ?st1 = (Inr ?resp, ?st1)"
      using r1 g1 ok s by (simp add: generate_reply_def)
    show ?thesis using first second by simp
  qed
  show ?thesis
    using r hit miss ok by (intro exI [of _ r]) simp
qed

theorem generate_reply_cached_witness:
  "generate_reply (reply_generator always_thanks) no_faults ''rev001''
       (stored_state (Some ''Thanks a lot'')) =
     (Inr \<lparr>resp_review_id = ''rev001'', resp_review_text = ''Great service'',
            resp_suggested_reply = ''Thanks a lot''\<rparr>, stored_state (Some ''Thanks a lot'')) \<and>
   generate_reply (reply_generator always_thanks) no_faults ''rev001''
       (snd (generate_reply (reply_generator always_thanks) no_faults ''rev001''
               (stored_state None))) =
     (Inr \<lparr>resp_review_id = ''rev001'', resp_review_text = ''Great service'',
            resp_suggested_reply = ''Thank you for your review.''\<rparr>,
      snd (generate_reply (reply_generator always_thanks) no_faults ''rev001''
             (stored_state None))) \<and>
   gen_calls (snd (generate_reply (reply_generator always_thanks) no_faults ''rev001''
             (stored_state None))) = 1"
  using generate_reply_cached [of "''rev001''" "stored_state (Some ''Thanks a lot'')" no_faults
      "''Thanks a lot''" "reply_generator always_thanks"]
    generate_reply_cached [of "''rev001''" "stored_state None" no_faults
      "''Thank you for your review.''" "reply_generator always_thanks"]
  by (simp add: resolve_review_def get_suggested_reply_def truthy_def reply_generator_def
      GenerateReviewReply_generate_reply_def always_thanks_def thanks_client_def no_faults_def
      stored_state_def example_review_def row_id_def)

text \<open>
  Claim C8. For every review that is found and has no cached reply, when the generator
  returns a reply, generate-reply answers with that reply whatever becomes of the
  write-back: the result of \<open>add_suggested_reply\<close> is not read, so a failed update (a
  fault of the table, or no row with that id) does not fail the request.
\<close>

theorem generate_reply_survives_store_failure:
  assumes "resolve_review (list_fault F) rid st = Some r"
    and "get_suggested_reply (get_fault F) (db st) rid = None"
    and "gen (gen_calls st) (r_text r) = Inr s"
  shows "fst (generate_reply gen F rid st) =
    Inr \<lparr>resp_review_id = rid, resp_review_text = r_text r, resp_suggested_reply = s\<rparr>"
  using assms by (simp add: generate_reply_def generate_new_reply_def)

theorem generate_reply_survives_store_failure_witness:
  "snd (add_suggested_reply (set_fault write_fault) (db (stored_state None)) ''rev001''
          ''Thank you for your review.'') = False \<and>
   fst (generate_reply (reply_generator always_thanks) write_fault ''rev001'' (stored_state None)) =
     Inr \<lparr>resp_review_id = ''rev001'', resp_review_text = ''Great service'',
           resp_suggested_reply = ''Thank you for your review.''\<rparr> \<and>
   snd (add_suggested_reply (set_fault no_faults) (db memory_only_state) ''rev001''
          ''Thank you for your review.'') = False \<and>
   fst (generate_reply (reply_generator always_thanks) no_faults ''rev001'' memory_only_state) =
     Inr \<lparr>resp_review_id = ''rev001'', resp_review_text = ''Great service'',
           resp_suggested_reply = ''Thank you for your review.''\<rparr>"
  using generate_reply_survives_store_failure [of write_fault "''rev001''" "stored_state None"
      "example_review ''rev001'' ''Great service''" "reply_generator always_thanks"
      "''Thank you for your review.''"]
    generate_reply_survives_store_failure [of no_faults "''rev001''" memory_only_state
      "example_review ''rev001'' ''Great service''" "reply_generator always_thanks"
      "''Thank you for your review.''"]
  by (simp add: resolve_review_def get_suggested_reply_def add_suggested_reply_def truthy_def
      reply_generator_def GenerateReviewReply_generate_reply_def always_thanks_def
      thanks_client_def no_faults_def write_fault_def stored_state_def memory_only_state_def
      example_review_def row_id_def)

text \<open>
  Claim C9. For every review id whose stored reply is the empty string, the reply
  counts as absent: \<open>get_suggested_reply\<close> returns \<open>None\<close>, the endpoint that fetches
  the reply answers 404, and generate-reply, when it finds the review, calls the
  generator again rather than return the stored empty string.
\<close>

theorem empty_reply_is_absent:
  assumes row: "find (\<lambda>row. row_id row = rid) (db st) = Some row"
    and empty: "suggested_reply row = Some []"
  shows "get_suggested_reply fault (db st) rid = None \<and>
    get_reply fault rid st = Inl (HTTPException 404 (''No reply found for review '' @ rid)) \<and>
    (\<not> list_fault F \<longrightarrow>
       (\<exists>r. resolve_review (list_fault F) rid st = Some r \<and>
            generate_reply gen F rid st = generate_new_reply gen F rid r st) \<and>
       gen_calls (snd (generate_reply gen F rid st)) = Suc (gen_calls st))"
proof -
  have none: "get_suggested_reply f (db st) rid = None" for f
    using row empty by (simp add: get_suggested_reply_def truthy_def)
  have "rid \<in> set (map row_id (db st))"
    using find_row_Some [OF row] by force
  then obtain r where r: "resolve_review False rid st = Some r"
    using resolve_review_exists by blast
  have gen: "generate_reply gen F rid st = generate_new_reply gen F rid r st"
    if "\<not> list_fault F"
    using that r none by (simp add: generate_reply_def)
  show ?thesis
    using none r gen generate_new_reply_calls [of gen F rid r st]
    by (auto simp: get_reply_def)
qed

theorem empty_reply_is_absent_witness:
  "get_suggested_reply False (db (stored_state (Some []))) ''rev001'' = None \<and>
   get_reply False ''rev001'' (stored_state (Some [])) =
     Inl (HTTPException 404 ''No reply found for review rev001'') \<and>
   fst (generate_reply (reply_generator always_thanks) no_faults ''rev001''
          (stored_state (Some []))) =
     Inr \<lparr>resp_review_id = ''rev001'', resp_review_text = ''Great service'',
           resp_suggested_reply = ''Thank you for your review.''\<rparr> \<and>
   gen_calls (snd (generate_reply (reply_generator always_thanks) no_faults ''rev001''
          (stored_state (Some [])))) = 1"
  using empty_reply_is_absent [of "''rev001''" "stored_state (Some [])"
      "\<lparr>row_review = example_review ''rev001'' ''Great service'', suggested_reply = Some []\<rparr>"
      False no_faults "reply_generator always_thanks"]
  by (auto simp: resolve_review_def generate_new_reply_def add_suggested_reply_def
      reply_generator_def GenerateReviewReply_generate_reply_def always_thanks_def
      thanks_client_def no_faults_def stored_state_def example_review_def row_id_def)

subsection \<open>Similar reviews\<close>

lemma collect_reviews_ids:
  "fst (collect_reviews rid rs idx (ids, texts, tgt)) = ids @ map r_id rs \<and>
   fst (snd (collect_reviews rid rs idx (ids, texts, tgt))) = texts @ map r_text rs"
  by (induction rs arbitrary: idx ids texts tgt) auto

lemma collect_reviews_absent:
  "rid \<notin> set (map r_id rs) \<Longrightarrow>
     snd (snd (collect_reviews rid rs idx (ids, texts, tgt))) = tgt"
  by (induction rs arbitrary: idx ids texts tgt) auto

lemma collect_reviews_present:
  "rid \<in> set (map r_id rs) \<Longrightarrow>
     \<exists>t. snd (snd (collect_reviews rid rs idx (ids, texts, tgt))) = Some t \<and>
         idx \<le> t \<and> t < idx + length rs \<and> r_id (rs ! (t - idx)) = rid"
proof (induction rs arbitrary: idx ids texts tgt)
  case Nil
  then show ?case by simp
next
  case (Cons r rs)
  show ?case
  proof (cases "rid \<in> set (map r_id rs)")
    case True
    from Cons.IH [OF True, of "Suc idx"] obtain t where
      t: "snd (snd (collect_reviews rid rs (Suc idx)
            (ids @ [r_id r], texts @ [r_text r],
             if r_id r = rid then Some idx else tgt))) = Some t"
        "Suc idx \<le> t" "t < Suc idx + length rs" "r_id (rs ! (t - Suc idx)) = rid"
      by blast
    have "(r # rs) ! (t - idx) = rs ! (t - Suc idx)"
      using t(2) by (simp add: nth_Cons')
    then show ?thesis using t by (intro exI [of _ t]) simp
  next
    case False
    then have "r_id r = rid" using Cons.prems by auto
    then show ?thesis
      using False by (intro exI [of _ idx]) (simp add: collect_reviews_absent)
  qed
qed

lemma lookup_all_in_range:
  "list_all (\<lambda>i. i < length ids) idxs \<Longrightarrow> lookup_all ids idxs = Inr (map (\<lambda>i. ids ! i) idxs)"
  by (induction idxs) auto

lemma stable_argsort_is_argsort: "is_argsort xs (stable_argsort xs)"
  by (simp add: is_argsort_def stable_argsort_def)


lemma argsort_length:
  assumes "is_argsort xs p"
  shows "length p = length xs"
proof -
  have "distinct p" and "set p = {0..<length xs}"
    using assms by (simp_all add: is_argsort_def)
  then have "card {0..<length xs} = length p"
    using distinct_card [of p] by simp
  then show ?thesis by simp
qed

lemma argsort_target_first:
  assumes t: "t < length sims" and nonneg: "list_all (\<lambda>s. 0 \<le> s) sims"
    and arg: "is_argsort (sims[t := - 1]) p"
  shows "p \<noteq> [] \<and> hd p = t"
proof -
  let ?f = "\<lambda>i. sims[t := - 1] ! i"
  have setp: "set p = {0..<length sims}" and srt: "sorted (map ?f p)"
    using arg by (simp_all add: is_argsort_def)
  have tp: "t \<in> set p" using t setp by simp
  then have ne: "p \<noteq> []" by auto
  have "hd p = t"
  proof (rule ccontr)
    assume neq: "hd p \<noteq> t"
    have "hd p \<in> set p" using ne by simp
    then have lt: "hd p < length sims" using setp by simp
    then have "0 \<le> sims ! hd p" using nonneg by (simp add: list_all_length)
    then have ge: "0 \<le> ?f (hd p)" using neq by simp
    obtain q where p: "p = hd p # q" using ne by (cases p) auto
    then have "t \<in> set q" using tp neq by (metis set_ConsD)
    moreover have "\<forall>x \<in> set q. ?f (hd p) \<le> ?f x"
      using srt p by (metis (no_types, lifting) list.simps(9) sorted_simps(2) imageI list.set_map)
    ultimately have "?f (hd p) \<le> ?f t" by blast
    then show False using ge t by simp
  qed
  then show ?thesis using ne by simp
qed

lemma top_of_argsort:
  assumes t: "t < length sims" and nonneg: "list_all (\<lambda>s. 0 \<le> s) sims"
    and arg: "is_argsort (sims[t := - 1]) p"
    and k: "0 < k" "k < length sims"
  shows "length (rev (py_last k p)) = k \<and> ranked_best sims t (rev (py_last k p))"
proof -
  let ?f = "\<lambda>i. sims[t := - 1] ! i"
  let ?m = "length sims - k"
  have len: "length p = length sims" using argsort_length [OF arg] by simp
  have dist: "distinct p" and setp: "set p = {0..<length sims}"
    and srt: "sorted (map ?f p)"
    using arg by (simp_all add: is_argsort_def)
  have last: "py_last k p = drop ?m p" using k len by (simp add: py_last_def)
  have m: "0 < ?m" using k by simp
  have first: "p \<noteq> []" "hd p = t" using argsort_target_first [OF t nonneg arg] by simp_all
  have split: "p = take ?m p @ drop ?m p" by simp
  have "hd p \<in> set (take ?m p)"
    using first(1) m by (cases p) (auto simp: take_Cons')
  moreover have disj: "set (take ?m p) \<inter> set (drop ?m p) = {}"
    using dist by (metis distinct_append split)
  ultimately have notin: "t \<notin> set (drop ?m p)" using first(2) by auto
  have sub: "set (drop ?m p) \<subseteq> set p" by (rule set_drop_subset)
  have same: "?f i = sims ! i" if "i \<in> set (drop ?m p)" for i
    using that notin by (metis nth_list_update_neq)
  have c1: "distinct (rev (drop ?m p))" using dist by simp
  have c2: "\<forall>i \<in> set (rev (drop ?m p)). i < length sims \<and> i \<noteq> t"
    using sub setp notin by auto
  have "sorted (map ?f (drop ?m p))"
    using srt by (simp flip: drop_map)
  moreover have "map ?f (drop ?m p) = map (\<lambda>i. sims ! i) (drop ?m p)"
    using same by (intro map_cong) simp_all
  ultimately have c3: "sorted (rev (map (\<lambda>i. sims ! i) (rev (drop ?m p))))"
    by (simp add: rev_map)
  have cross: "\<forall>x \<in> set (take ?m p). \<forall>y \<in> set (drop ?m p). ?f x \<le> ?f y"
  proof -
    have "sorted (map ?f (take ?m p) @ map ?f (drop ?m p))"
      using srt by (metis map_append split)
    then show ?thesis by (auto simp: sorted_append)
  qed
  have c4: "\<forall>j \<in> set [0..<length sims]. j = t \<or> j \<in> set (rev (drop ?m p)) \<or>
      (\<forall>i \<in> set (rev (drop ?m p)). sims ! j \<le> sims ! i)"
  proof (intro ballI)
    fix j assume "j \<in> set [0..<length sims]"
    then have jp: "j \<in> set p" using setp by simp
    show "j = t \<or> j \<in> set (rev (drop ?m p)) \<or>
      (\<forall>i \<in> set (rev (drop ?m p)). sims ! j \<le> sims ! i)"
    proof (cases "j = t \<or> j \<in> set (drop ?m p)")
      case True
      then show ?thesis by auto
    next
      case False
      then have "j \<in> set (take ?m p)" using jp split by (metis Un_iff set_append)
      then have "\<forall>i \<in> set (drop ?m p). ?f j \<le> ?f i" using cross by blast
      moreover have "?f j = sims ! j" using False by simp
      ultimately have "\<forall>i \<in> set (drop ?m p). sims ! j \<le> sims ! i"
        using same by simp
      then show ?thesis by simp
    qed
  qed
  have "length (rev (drop ?m p)) = k" using len k by simp
  then show ?thesis
    using c1 c2 c3 c4 by (simp add: last ranked_best_def list_all_iff)
qed

lemma collect_reviews_last:
  assumes "t < length rs" and "r_id (rs ! t) = rid"
    and "list_all (\<lambda>r. r_id r \<noteq> rid) (drop (Suc t) rs)"
  shows "snd (snd (collect_reviews rid rs idx (ids, texts, tgt))) = Some (idx + t)"
  using assms
proof (induction rs arbitrary: t idx ids texts tgt)
  case Nil
  then show ?case by simp
next
  case (Cons r rs)
  show ?case
  proof (cases t)
    case 0
    then have "r_id r = rid" and "rid \<notin> set (map r_id rs)"
      using Cons.prems by (auto simp: list_all_iff)
    then show ?thesis using 0 by (simp add: collect_reviews_absent)
  next
    case (Suc t')
    then have "t' < length rs" "r_id (rs ! t') = rid"
        "list_all (\<lambda>r. r_id r \<noteq> rid) (drop (Suc t') rs)"
      using Cons.prems by simp_all
    then have "snd (snd (collect_reviews rid rs (Suc idx)
        (ids @ [r_id r], texts @ [r_text r], if r_id r = rid then Some idx else tgt))) =
        Some (Suc idx + t')"
      by (rule Cons.IH)
    then show ?thesis using Suc by simp
  qed
qed

lemma last_occurrence_exists:
  "rid \<in> set (map r_id rs) \<Longrightarrow>
     \<exists>t. t < length rs \<and> r_id (rs ! t) = rid \<and> list_all (\<lambda>r. r_id r \<noteq> rid) (drop (Suc t) rs)"
proof (induction rs)
  case Nil
  then show ?case by simp
next
  case (Cons r rs)
  show ?case
  proof (cases "rid \<in> set (map r_id rs)")
    case True
    then obtain t where "t < length rs" "r_id (rs ! t) = rid"
        "list_all (\<lambda>r. r_id r \<noteq> rid) (drop (Suc t) rs)"
      using Cons.IH by blast
    then show ?thesis by (intro exI [of _ "Suc t"]) simp
  next
    case False
    then have "r_id r = rid" using Cons.prems by auto
    moreover have "list_all (\<lambda>r. r_id r \<noteq> rid) rs"
      using False by (auto simp: list_all_iff)
    ultimately show ?thesis by (intro exI [of _ 0]) simp
  qed
qed


lemma find_similar_reviews_core:
  assumes corpus: "similarity_corpus fault table mem = corpus"
    and n: "2 \<le> length corpus"
    and t: "t < length corpus" "r_id (corpus ! t) = rid"
    and last: "list_all (\<lambda>r. r_id r \<noteq> rid) (drop (Suc t) corpus)"
    and cos: "tfidf_cosine (map r_text corpus) t = Inr sims"
      "cosine_result_ok (length corpus) sims"
    and arg: "is_argsort (sims[t := - 1]) (argsort (sims[t := - 1]))"
  shows "\<exists>idxs. find_similar_reviews tfidf_cosine argsort fault rid table mem =
           Inr (map (\<lambda>i. r_id (corpus ! i)) idxs) \<and>
         length idxs = min 2 (length corpus - 1) \<and> ranked_best sims t idxs"
proof -
  let ?k = "min 2 (length corpus - 1)"
  let ?idxs = "rev (py_last ?k (argsort (sims[t := - 1])))"
  have "snd (snd (collect_reviews rid corpus 0 ([], [], None))) = Some t"
    using collect_reviews_last [OF t last, of 0 "[]" "[]" None] by simp
  then have coll: "collect_reviews rid corpus 0 ([], [], None) =
      (map r_id corpus, map r_text corpus, Some t)"
    using collect_reviews_ids [of rid corpus 0 "[]" "[]" None]
    by (metis append_Nil prod.collapse)
  have lens: "length sims = length corpus" and nonneg: "list_all (\<lambda>s. 0 \<le> s) sims"
    using cos(2) by (simp_all add: cosine_result_ok_def)
  have tl: "t < length sims" using t lens by simp
  have k: "0 < ?k" "?k < length sims" using n lens by simp_all
  have top: "length ?idxs = ?k" "ranked_best sims t ?idxs"
    using top_of_argsort [OF tl nonneg arg k] by simp_all
  then have "list_all (\<lambda>i. i < length (map r_id corpus)) ?idxs"
    using lens by (simp add: ranked_best_def list_all_iff)
  then have "lookup_all (map r_id corpus) ?idxs = Inr (map (\<lambda>i. map r_id corpus ! i) ?idxs)"
    by (rule lookup_all_in_range)
  also have "\<dots> = Inr (map (\<lambda>i. r_id (corpus ! i)) ?idxs)"
    using top(2) lens by (auto simp: ranked_best_def list_all_iff)
  finally have look: "lookup_all (map r_id corpus) ?idxs = Inr (map (\<lambda>i. r_id (corpus ! i)) ?idxs)" .
  have "find_similar_reviews tfidf_cosine argsort fault rid table mem =
      Inr (map (\<lambda>i. r_id (corpus ! i)) ?idxs)"
    using n coll cos(1) tl look by (simp add: find_similar_reviews_def corpus Let_def)
  then show ?thesis using top by blast
qed

lemma returned_ids_not_query:
  assumes t: "t < length corpus" and len: "length sims = length corpus"
    and best: "ranked_best sims t idxs"
    and before: "list_all (\<lambda>r. r_id r \<noteq> rid) (take t corpus)"
    and after: "list_all (\<lambda>r. r_id r \<noteq> rid) (drop (Suc t) corpus)"
  shows "rid \<notin> set (map (\<lambda>i. r_id (corpus ! i)) idxs)"
proof -
  have rng: "\<forall>i \<in> set idxs. i < length corpus \<and> i \<noteq> t"
    using best len by (simp add: ranked_best_def list_all_iff)
  have "r_id (corpus ! i) \<noteq> rid" if i: "i < length corpus" "i \<noteq> t" for i
  proof (cases "i < t")
    case True
    then have "take t corpus ! i \<in> set (take t corpus)"
      using t by (intro nth_mem) simp
    then have "corpus ! i \<in> set (take t corpus)"
      using True by simp
    then show ?thesis using before by (simp add: list_all_iff)
  next
    case False
    then have "Suc t \<le> i" using i by simp
    then have "drop (Suc t) corpus ! (i - Suc t) \<in> set (drop (Suc t) corpus)"
      using i(1) by (intro nth_mem) simp
    moreover have "drop (Suc t) corpus ! (i - Suc t) = corpus ! i"
      using \<open>Suc t \<le> i\<close> i(1) by simp
    ultimately have "corpus ! i \<in> set (drop (Suc t) corpus)"
      by simp
    then show ?thesis using after by (simp add: list_all_iff)
  qed
  then show ?thesis using rng by auto
qed

text \<open>
  The primary key: every operation on the table keeps the ids of its rows pairwise
  distinct, so a corpus that is read from the table has pairwise distinct ids.
\<close>

lemma add_review_distinct:
  "distinct (map row_id table) \<Longrightarrow> distinct (map row_id (fst (add_review fault table r)))"
  by (simp add: add_review_def row_id_def new_row_def)

lemma add_reviews_batch_distinct:
  assumes "distinct (map row_id table)"
  shows "distinct (map row_id (fst (add_reviews_batch fault table rs)))"
proof (cases "executemany_insert table rs")
  case None
  then show ?thesis using assms by (simp add: add_reviews_batch_def)
next
  case (Some table')
  then have new: "table' = table @ map new_row rs" by (rule executemany_insert_Some)
  have "\<not> (\<not> distinct (map r_id rs) \<or> (\<exists>r \<in> set rs. r_id r \<in> set (map row_id table)))"
    using Some executemany_insert_None [of table rs] by simp
  then have d: "distinct (map r_id rs)"
    and disj: "set (map row_id table) \<inter> set (map r_id rs) = {}"
    by (auto simp: image_iff) (metis+)?
  have "map row_id table' = map row_id table @ map r_id rs"
    by (simp add: new row_id_def new_row_def)
  then have "distinct (map row_id table')"
    using assms d disj by simp
  then show ?thesis using Some assms by (simp add: add_reviews_batch_def)
qed

lemma add_suggested_reply_ids:
  "map row_id (fst (add_suggested_reply fault table rid s)) = map row_id table"
  by (simp add: add_suggested_reply_def Let_def row_id_def)

lemma table_corpus_distinct:
  assumes "distinct (map row_id table)" and "table \<noteq> []"
  shows "distinct (map r_id (similarity_corpus False table mem))"
proof -
  have "map r_id (map row_review (get_all_reviews_as_json False table)) = map row_id table"
    by (simp add: get_all_reviews_as_json_def row_id_def)
  moreover have "map row_review (get_all_reviews_as_json False table) \<noteq> []"
    using assms(2) by (simp add: get_all_reviews_as_json_def)
  ultimately show ?thesis
    using assms(1) by (simp add: similarity_corpus_def Let_def)
qed


lemma bulk_ingest_keeps_duplicates:
  "i_id x \<notin> set (map r_id (reviews_db st)) \<Longrightarrow>
     map r_id (reviews_db (snd (ingest_review lib F (Bulk [x, x]) st))) =
       map r_id (reviews_db st) @ [i_id x, i_id x]"
  by (simp add: ingest_review_def process_single_review_def)

text \<open>
  Claim C6, as stated: the result never includes the query id. The query review is left
  out by its position, so on a corpus that holds the id twice (the in-memory list after
  a bulk ingestion that repeats an id) the other review of that id is returned.
\<close>

theorem find_similar_reviews_query_id_counterexample:
  "find_similar_reviews equal_texts_cosine stable_argsort False ''rev001'' []
     [example_review ''rev001'' ''Great service'', example_review ''rev001'' ''Great service''] =
   Inr [''rev001'']"
  by (simp add: find_similar_reviews_def similarity_corpus_def get_all_reviews_as_json_def
      example_review_def equal_texts_cosine_def stable_argsort_def py_last_def)

text \<open>
  Claim C6, amended. If the corpus has fewer than 2 reviews, \<open>find_similar_reviews\<close>
  returns the empty list; otherwise, if the query id is not in the corpus, it raises
  \<open>ValueError\<close>; otherwise, when the vectorisation returns the similarities, it returns
  exactly \<open>min(2, corpus_size - 1)\<close> ids, those of the reviews most similar to the query
  review (the last review of the corpus with the query id) in descending order of
  similarity, the query review itself left out; the query id is not among them when no
  other review of the corpus has that id.
\<close>

theorem find_similar_reviews_result:
  assumes "similarity_corpus fault table mem = corpus"
  shows "(length corpus < 2 \<longrightarrow>
      find_similar_reviews tfidf_cosine argsort fault rid table mem = Inr []) \<and>
    (2 \<le> length corpus \<and> rid \<notin> set (map r_id corpus) \<longrightarrow>
      find_similar_reviews tfidf_cosine argsort fault rid table mem =
        Inl (ValueError (''Review with ID '' @ rid @ '' not found''))) \<and>
    (2 \<le> length corpus \<and>
     t < length corpus \<and> r_id (corpus ! t) = rid \<and>
     list_all (\<lambda>r. r_id r \<noteq> rid) (drop (Suc t) corpus) \<and>
     tfidf_cosine (map r_text corpus) t = Inr sims \<and>
     cosine_result_ok (length corpus) sims \<and>
     is_argsort (sims[t := - 1]) (argsort (sims[t := - 1])) \<longrightarrow>
      (\<exists>idxs. find_similar_reviews tfidf_cosine argsort fault rid table mem =
                Inr (map (\<lambda>i. r_id (corpus ! i)) idxs) \<and>
              length idxs = min 2 (length corpus - 1) \<and>
              ranked_best sims t idxs \<and>
              (list_all (\<lambda>r. r_id r \<noteq> rid) (take t corpus) \<longrightarrow>
                 rid \<notin> set (map (\<lambda>i. r_id (corpus ! i)) idxs))))"
proof (intro conjI impI)
  assume "length corpus < 2"
  then show "find_similar_reviews tfidf_cosine argsort fault rid table mem = Inr []"
    using assms by (simp add: find_similar_reviews_def)
next
  assume a: "2 \<le> length corpus \<and> rid \<notin> set (map r_id corpus)"
  then have "snd (snd (collect_reviews rid corpus 0 ([], [], None))) = None"
    by (simp add: collect_reviews_absent)
  then obtain ids texts where "collect_reviews rid corpus 0 ([], [], None) = (ids, texts, None)"
    by (metis prod.collapse)
  then show "find_similar_reviews tfidf_cosine argsort fault rid table mem =
        Inl (ValueError (''Review with ID '' @ rid @ '' not found''))"
    using a assms by (simp add: find_similar_reviews_def)
next
  assume a: "2 \<le> length corpus \<and>
     t < length corpus \<and> r_id (corpus ! t) = rid \<and>
     list_all (\<lambda>r. r_id r \<noteq> rid) (drop (Suc t) corpus) \<and>
     tfidf_cosine (map r_text corpus) t = Inr sims \<and>
     cosine_result_ok (length corpus) sims \<and>
     is_argsort (sims[t := - 1]) (argsort (sims[t := - 1]))"
  then obtain idxs where idxs:
      "find_similar_reviews tfidf_cosine argsort fault rid table mem =
         Inr (map (\<lambda>i. r_id (corpus ! i)) idxs)"
      "length idxs = min 2 (length corpus - 1)" "ranked_best sims t idxs"
    using find_similar_reviews_core [of fault table mem corpus t rid tfidf_cosine sims argsort]
      assms by blast
  have len: "length sims = length corpus" using a by (simp add: cosine_result_ok_def)
  have "rid \<notin> set (map (\<lambda>i. r_id (corpus ! i)) idxs)"
    if "list_all (\<lambda>r. r_id r \<noteq> rid) (take t corpus)"
    using returned_ids_not_query [of t corpus sims idxs rid] a len idxs(3) that by blast
  then show "\<exists>idxs. find_similar_reviews tfidf_cosine argsort fault rid table mem =
                Inr (map (\<lambda>i. r_id (corpus ! i)) idxs) \<and>
              length idxs = min 2 (length corpus - 1) \<and>
              ranked_best sims t idxs \<and>
              (list_all (\<lambda>r. r_id r \<noteq> rid) (take t corpus) \<longrightarrow>
                 rid \<notin> set (map (\<lambda>i. r_id (corpus ! i)) idxs))"
    using idxs by blast
qed

theorem find_similar_reviews_result_witness:
  "find_similar_reviews example_cosine stable_argsort False ''rev001'' []
     [example_review ''rev001'' ''Great service''] = Inr [] \<and>
   find_similar_reviews example_cosine stable_argsort False ''rev009'' [] three_reviews =
     Inl (ValueError ''Review with ID rev009 not found'') \<and>
   find_similar_reviews example_cosine stable_argsort False ''rev001'' [] three_reviews =
     Inr [''rev002'', ''rev003''] \<and>
   find_similar_reviews example_cosine stable_argsort False ''rev001'' []
     [example_review ''rev001'' ''Great service'', example_review ''rev002'' ''Slow service'',
      example_review ''rev002'' ''Great food''] =
     Inr [''rev002'', ''rev002'']"
  using find_similar_reviews_result [of False "[]" "[example_review ''rev001'' ''Great service'']"
      "[example_review ''rev001'' ''Great service'']" example_cosine stable_argsort "''rev001''"]
    find_similar_reviews_result [of False "[]" three_reviews three_reviews
      example_cosine stable_argsort "''rev009''"]
    find_similar_reviews_result [of False "[]" three_reviews three_reviews
      example_cosine stable_argsort "''rev001''" 0 "[1, 1 / 3, 1 / 4]"]
    find_similar_reviews_result [of False "[]"
      "[example_review ''rev001'' ''Great service'', example_review ''rev002'' ''Slow service'',
        example_review ''rev002'' ''Great food'']"
      "[example_review ''rev001'' ''Great service'', example_review ''rev002'' ''Slow service'',
        example_review ''rev002'' ''Great food'']"
      example_cosine stable_argsort "''rev001''" 0 "[1, 1 / 3, 1 / 4]"]
    stable_argsort_is_argsort [of "[- 1, 1 / 3, 1 / 4]"]
  by (simp add: find_similar_reviews_def similarity_corpus_def get_all_reviews_as_json_def
      three_reviews_def example_review_def example_cosine_def stable_argsort_def py_last_def
      cosine_result_ok_def)




end
